theory Spec2Isabelle
  imports Complex_Main "HOL-Library.Sublist"
begin

section \<open>The screenshot processor of \<^verbatim>\<open>scripts/tweet-processor/process-tweets.js\<close>\<close>

text \<open>
  A shallow embedding of the pipeline: strings are \<open>char list\<close>, JavaScript numbers that
  are scores are \<open>real\<close>, counts are \<open>int\<close>, a value that may be \<open>null\<close> or
  \<open>undefined\<close> is an \<open>option\<close>, a \<open>throw\<close> is the \<open>Inl\<close> of a sum, and the file
  system together with the module-level \<open>processedScreenshots\<close> object is an explicit
  state that every function takes and returns.
\<close>

subsection \<open>Configuration\<close>

record config =
  vaultPath :: string
  screenshotsDir :: string
  resourcesDir :: string
  projectsDir :: string
  unsureDir :: string
  logFile :: string
  processedFile :: string
  confidenceThreshold :: real
  aiProvider :: string
  dryRun :: bool
  enableAutoResearch :: bool
  maxResearchResults :: nat
  researchRelevanceThreshold :: real

text \<open>
  \<open>CONFIG\<close> with every environment variable unset except the vault path; the script's
  own directory (\<open>__dirname\<close>) and the \<open>--dry-run\<close> flag are the other two inputs.
  \<open>processedFile\<close> is \<open>path.join(__dirname, CONFIG.processedMarkerFile)\<close>.
\<close>

definition path_join :: "string \<Rightarrow> string \<Rightarrow> string" where
  "path_join a b = a @ ''/'' @ b"

definition CONFIG :: "string \<Rightarrow> string \<Rightarrow> bool \<Rightarrow> config" where
  "CONFIG vault dirname dry =
     \<lparr> vaultPath = vault,
       screenshotsDir = ''Attachments/Xeets'',
       resourcesDir = ''03 - Resources/X Insights'',
       projectsDir = ''01 - Projects/Ideas'',
       unsureDir = ''00 - Inbox/Xeets to Review'',
       logFile = ''00 - Inbox/Xeet Processing Log.md'',
       processedFile = path_join dirname ''.processed-xeets.json'',
       confidenceThreshold = 0.7,
       aiProvider = ''gemini'',
       dryRun = dry,
       enableAutoResearch = True,
       maxResearchResults = 5,
       researchRelevanceThreshold = 0.6 \<rparr>"

subsection \<open>The classification record\<close>

text \<open>
  The object \<open>JSON.parse\<close> returns in \<open>analyzeScreenshot\<close>. The four fields on which the
  pipeline calls a method or reads a property (\<open>confidence.toFixed\<close>, \<open>tags.join\<close>,
  \<open>engagement.likes\<close>, \<open>title.toLowerCase\<close>) are optional: where one is missing the
  code raises a \<open>TypeError\<close> at that point. The counts are \<open>number or null\<close>.
\<close>

record engagement =
  likes :: "int option"
  retweets :: "int option"
  replies :: "int option"

record tweetData =
  author :: string
  authorName :: string
  date :: "string option"
  tweetText :: string
  hasImages :: bool
  hasThread :: bool
  engagement :: "engagement option"
  category :: string
  confidence :: "real option"
  tags :: "string list option"
  summary :: string
  title :: "string option"
  relevance :: string

datatype error = TypeError | ApiError string | SyntaxError | StorageError string

subsection \<open>Routing (the first statement of \<open>saveNote\<close>)\<close>

text \<open>
  \<open>tweetData.confidence < CONFIG.confidenceThreshold\<close> is false when the confidence is
  \<open>undefined\<close> (the comparison with \<open>NaN\<close>).
\<close>

definition targetDir :: "config \<Rightarrow> tweetData \<Rightarrow> string" where
  "targetDir cfg td =
     (if (case confidence td of None \<Rightarrow> False | Some c \<Rightarrow> c < confidenceThreshold cfg)
      then unsureDir cfg
      else if category td = ''resource'' then resourcesDir cfg else projectsDir cfg)"

subsection \<open>The note's file name\<close>

text \<open>
  Strings are the bytes of their UTF-8 encoding. \<open>fold_ascii\<close> lowers an ASCII capital
  and leaves every other byte: it is the case folding of a regular expression with the
  \<open>i\<close> flag on an ASCII pattern, and the ASCII part of \<open>toLowerCase\<close>.
\<close>

definition fold_ascii :: "char \<Rightarrow> char" where
  "fold_ascii c = (let n = (of_char c :: nat) in if 65 \<le> n \<and> n \<le> 90 then char_of (n + 32) else c)"

text \<open>
  \<open>String.prototype.toLowerCase\<close>. Two characters outside ASCII have a lower case that
  contains an ASCII letter: the Kelvin sign U+212A becomes \<open>k\<close>, and the dotted capital
  I, U+0130, becomes \<open>i\<close> followed by the combining dot U+0307. Every other character
  outside ASCII becomes characters outside ASCII; the model keeps its bytes as they
  are, so the result agrees with the program's in every ASCII character and in where
  the characters outside ASCII stand, which is all that the replacement of
  \<open>[^a-z0-9]+\<close> after it looks at.
\<close>

definition kelvin :: string where
  "kelvin = [CHR 0xE2, CHR 0x84, CHR 0xAA]"

definition dotted_I :: string where
  "dotted_I = [CHR 0xC4, CHR 0xB0]"

definition combining_dot :: string where
  "combining_dot = [CHR 0xCC, CHR 0x87]"

fun toLowerCase :: "string \<Rightarrow> string" where
  "toLowerCase [] = []"
| "toLowerCase (c # cs) =
     (if prefix kelvin (c # cs) then CHR ''k'' # toLowerCase (drop 2 cs)
      else if prefix dotted_I (c # cs) then CHR ''i'' # combining_dot @ toLowerCase (drop 1 cs)
      else fold_ascii c # toLowerCase cs)"


definition alnum :: "char \<Rightarrow> bool" where
  "alnum c = (let n = (of_char c :: nat) in (97 \<le> n \<and> n \<le> 122) \<or> (48 \<le> n \<and> n \<le> 57))"

text \<open>
  \<open>.replace(/[^a-z0-9]+/g, '-')\<close>: a scan from the left; the flag says that the
  previous character belonged to a run that has already produced its hyphen.
\<close>

fun replace_runs :: "bool \<Rightarrow> string \<Rightarrow> string" where
  "replace_runs inrun [] = []"
| "replace_runs inrun (c # cs) =
     (if alnum c then c # replace_runs False cs
      else if inrun then replace_runs True cs
      else CHR ''-'' # replace_runs True cs)"

text \<open>
  \<open>.replace(/^-|-$/g, '')\<close>: one hyphen at the start is removed, and then one hyphen
  at the end of what is left.
\<close>

definition strip_hyphens :: "string \<Rightarrow> string" where
  "strip_hyphens s =
     (let s1 = (case s of [] \<Rightarrow> [] | c # r \<Rightarrow> if c = CHR ''-'' then r else s)
      in if s1 \<noteq> [] \<and> last s1 = CHR ''-'' then butlast s1 else s1)"

definition sanitize :: "string \<Rightarrow> string" where
  "sanitize t = take 50 (strip_hyphens (replace_runs False (toLowerCase t)))"

definition note_filename :: "string \<Rightarrow> string" where
  "note_filename t = sanitize t @ ''.md''"

subsection \<open>The file system and the processed set\<close>

text \<open>
  What the pipeline observes of the file system: the content of each file, the set of
  directories, the listing of a directory (only the screenshots directory is ever
  listed, and the pipeline never writes into it), and the paths at which
  \<open>mkdirSync\<close> and \<open>writeFileSync\<close> raise. \<open>processedScreenshots\<close> is the
  module-level object after the start-up load; every marker is an object, hence truthy.
  \<open>mkdirSync\<close> with \<open>recursive: true\<close> also creates missing ancestors, which no
  operation of the pipeline observes; the model records the requested directory.
\<close>

record marker =
  processedAt :: string
  provider :: string

record world =
  files :: "string \<rightharpoonup> string"
  dirs :: "string set"
  listing :: "string \<Rightarrow> string list"
  denied :: "string set"
  processedScreenshots :: "string \<rightharpoonup> marker"

type_synonym 'a result = "(error + 'a) \<times> world"

definition existsSync :: "string \<Rightarrow> world \<Rightarrow> bool" where
  "existsSync p w = (p \<in> dirs w \<or> files w p \<noteq> None)"

definition mkdirSync :: "string \<Rightarrow> world \<Rightarrow> unit result" where
  "mkdirSync p w =
     (if p \<in> denied w then (Inl (StorageError p), w)
      else (Inr (), w\<lparr>dirs := insert p (dirs w)\<rparr>))"

definition writeFileSync :: "string \<Rightarrow> string \<Rightarrow> world \<Rightarrow> unit result" where
  "writeFileSync p content w =
     (if p \<in> denied w then (Inl (StorageError p), w)
      else (Inr (), w\<lparr>files := (files w)(p \<mapsto> content)\<rparr>))"

definition readFileSync :: "string \<Rightarrow> world \<Rightarrow> error + string" where
  "readFileSync p w = (case files w p of None \<Rightarrow> Inl (StorageError p) | Some c \<Rightarrow> Inr c)"

definition readdirSync :: "string \<Rightarrow> world \<Rightarrow> error + string list" where
  "readdirSync p w = (if p \<in> dirs w then Inr (listing w p) else Inl (StorageError p))"

text \<open>
  JavaScript's own renderings are parameters: \<open>String(x)\<close> of a number,
  \<open>x.toFixed(0)\<close>, \<open>JSON.stringify\<close> of the tag list and of the processed set.
\<close>

record builtins =
  numToString :: "real \<Rightarrow> string"
  toFixed0 :: "real \<Rightarrow> string"
  stringify_tags :: "string list \<Rightarrow> string"
  stringify_processed :: "(string \<rightharpoonup> marker) \<Rightarrow> string"

subsection \<open>\<open>findNewScreenshots\<close>\<close>

record screenshot =
  filename :: string
  fullPath :: string
  relativePath :: string

text \<open>\<open>/\.(png|jpg|jpeg)$/i.test(f)\<close>\<close>

definition is_image :: "string \<Rightarrow> bool" where
  "is_image f =
     (suffix ''.png'' (map fold_ascii f) \<or> suffix ''.jpg'' (map fold_ascii f)
      \<or> suffix ''.jpeg'' (map fold_ascii f))"

definition findNewScreenshots :: "config \<Rightarrow> world \<Rightarrow> screenshot list result" where
  "findNewScreenshots cfg w =
     (let screenshotsPath = path_join (vaultPath cfg) (screenshotsDir cfg) in
      if \<not> existsSync screenshotsPath w then
        (case mkdirSync screenshotsPath w of
           (Inl e, w') \<Rightarrow> (Inl e, w')
         | (Inr _, w') \<Rightarrow> (Inr [], w'))
      else
        (case readdirSync screenshotsPath w of
           Inl e \<Rightarrow> (Inl e, w)
         | Inr fs \<Rightarrow>
             (Inr (map (\<lambda>f. \<lparr> filename = f,
                               fullPath = path_join screenshotsPath f,
                               relativePath = path_join (screenshotsDir cfg) f \<rparr>)
                       (filter (\<lambda>f. is_image f \<and> processedScreenshots w f = None) fs)),
              w)))"

subsection \<open>External services\<close>

text \<open>
  A search result as \<open>performWebSearch\<close> builds it and as \<open>filterResearchResults\<close>
  enriches it; every property may be \<open>undefined\<close>.
\<close>

record research_result =
  res_title :: "string option"
  res_url :: "string option"
  res_snippet :: "string option"
  res_relevance :: "real option"
  res_reason :: "string option"
  res_summary :: "string option"

record filter_item =
  f_index :: int
  f_relevance :: real
  f_reason :: "string option"
  f_summary :: "string option"

record research_bundle =
  query :: string
  results :: "research_result list"

text \<open>
  The calls that leave the process. \<open>classify\<close> is the body of \<open>analyzeScreenshot\<close>
  (reading the image, the model call, \<open>JSON.parse\<close>); \<open>query_gen\<close> is the text the
  model returns for the search query; \<open>web_search\<close> is \<open>performWebSearch\<close>, which
  resolves to a list on every path; \<open>filter_call\<close> is the model call of
  \<open>filterResearchResults\<close> up to \<open>filtered.results\<close>, \<open>Inl\<close> when the call,
  the parse or the property access raises; \<open>now\<close> is the clock while a screenshot is
  processed, as \<open>toISOString\<close> prints it.
\<close>

record services =
  classify :: "string \<Rightarrow> error + tweetData"
  query_gen :: "tweetData \<Rightarrow> error + string"
  web_search :: "string \<Rightarrow> nat \<Rightarrow> research_result list"
  filter_call :: "research_result list \<Rightarrow> tweetData \<Rightarrow> error + filter_item list"
  now :: "string \<Rightarrow> string"

definition analyzeScreenshot :: "services \<Rightarrow> string \<Rightarrow> error + tweetData" where
  "analyzeScreenshot orc imagePath = classify orc imagePath"

subsection \<open>Auto-research\<close>

text \<open>\<open>.trim()\<close>, on the ASCII white space, and \<open>.replace(/['"]/g, '')\<close>.\<close>

definition is_space :: "char \<Rightarrow> bool" where
  "is_space c = (of_char c \<in> {9, 10, 11, 12, 13, 32 :: nat})"

definition trim :: "string \<Rightarrow> string" where
  "trim s = rev (dropWhile is_space (rev (dropWhile is_space s)))"

definition generateSearchQuery :: "services \<Rightarrow> tweetData \<Rightarrow> error + string" where
  "generateSearchQuery orc td =
     (case tags td of
        None \<Rightarrow> Inl TypeError
      | Some _ \<Rightarrow>
          (case query_gen orc td of
             Inl e \<Rightarrow> Inl e
           | Inr t \<Rightarrow> Inr (filter (\<lambda>c. c \<noteq> CHR 0x27 \<and> c \<noteq> CHR 0x22) (trim t))))"

definition performWebSearch :: "config \<Rightarrow> services \<Rightarrow> string \<Rightarrow> research_result list" where
  "performWebSearch cfg orc q = web_search orc q (maxResearchResults cfg)"

definition no_result :: research_result where
  "no_result = \<lparr> res_title = None, res_url = None, res_snippet = None,
                 res_relevance = None, res_reason = None, res_summary = None \<rparr>"

text \<open>\<open>searchResults[r.index - 1]\<close>, spread into a fresh object.\<close>

definition result_at :: "research_result list \<Rightarrow> int \<Rightarrow> research_result" where
  "result_at rs i = (if 0 \<le> i \<and> i < int (length rs) then rs ! nat i else no_result)"

definition enrich :: "research_result list \<Rightarrow> filter_item \<Rightarrow> research_result" where
  "enrich rs r =
     (result_at rs (f_index r - 1))
       \<lparr> res_relevance := Some (f_relevance r), res_reason := f_reason r,
         res_summary := f_summary r \<rparr>"

definition unfiltered :: "research_result \<Rightarrow> research_result" where
  "unfiltered r = r\<lparr> res_relevance := Some 0.5, res_summary := res_snippet r \<rparr>"

definition descending :: "research_result \<Rightarrow> real" where
  "descending r = (case res_relevance r of None \<Rightarrow> 0 | Some x \<Rightarrow> - x)"

text \<open>
  The prompt is built before the \<open>try\<close>, so \<open>tweetData.tags.join\<close> raises out of the
  function; everything after it is inside the \<open>try\<close>.
\<close>

definition filterResearchResults ::
  "config \<Rightarrow> services \<Rightarrow> research_result list \<Rightarrow> tweetData \<Rightarrow> error + research_result list" where
  "filterResearchResults cfg orc searchResults td =
     (if searchResults = [] then Inr []
      else case tags td of
        None \<Rightarrow> Inl TypeError
      | Some _ \<Rightarrow>
          (case filter_call orc searchResults td of
             Inr filtered \<Rightarrow>
               Inr (sort_key descending
                      (map (enrich searchResults)
                         (filter (\<lambda>r. f_relevance r \<ge> researchRelevanceThreshold cfg) filtered)))
           | Inl e \<Rightarrow> Inr (map unfiltered searchResults)))"

definition research_try :: "config \<Rightarrow> services \<Rightarrow> tweetData \<Rightarrow> error + research_bundle" where
  "research_try cfg orc td =
     (case generateSearchQuery orc td of
        Inl e \<Rightarrow> Inl e
      | Inr searchQuery \<Rightarrow>
          (let searchResults = performWebSearch cfg orc searchQuery in
           if searchResults = [] then Inr \<lparr> query = searchQuery, results = [] \<rparr>
           else case filterResearchResults cfg orc searchResults td of
                  Inl e \<Rightarrow> Inl e
                | Inr filteredResults \<Rightarrow>
                    Inr \<lparr> query = searchQuery, results = filteredResults \<rparr>))"

definition performAutoResearch :: "config \<Rightarrow> services \<Rightarrow> tweetData \<Rightarrow> research_bundle option" where
  "performAutoResearch cfg orc td =
     (if \<not> enableAutoResearch cfg then None
      else case research_try cfg orc td of Inl e \<Rightarrow> None | Inr b \<Rightarrow> Some b)"

subsection \<open>\<open>generateNote\<close>\<close>

text \<open>
  Template literals: \<open>${x}\<close> of a missing value prints \<open>undefined\<close>, of \<open>null\<close>
  prints \<open>null\<close>; \<open>x || d\<close> is \<open>d\<close> when \<open>x\<close> is missing or empty. The emoji of
  the templates are their UTF-8 bytes.
\<close>

definition interpolate :: "string option \<Rightarrow> string" where
  "interpolate x = (case x of None \<Rightarrow> ''undefined'' | Some s \<Rightarrow> s)"

definition or_else :: "string option \<Rightarrow> string \<Rightarrow> string" where
  "or_else x d = (case x of None \<Rightarrow> d | Some s \<Rightarrow> if s = [] then d else s)"

definition count_str :: "builtins \<Rightarrow> int option \<Rightarrow> string" where
  "count_str js n = (case n of None \<Rightarrow> ''null'' | Some k \<Rightarrow> numToString js (of_int k))"

definition truthy_count :: "int option \<Rightarrow> bool" where
  "truthy_count n = (case n of None \<Rightarrow> False | Some k \<Rightarrow> k \<noteq> 0)"

definition heart :: string where
  "heart = [CHR 0xE2, CHR 0x9D, CHR 0xA4, CHR 0xEF, CHR 0xB8, CHR 0x8F]"

definition middot :: string where
  "middot = [CHR 0xC2, CHR 0xB7]"

definition arrows :: string where
  "arrows = [CHR 0xF0, CHR 0x9F, CHR 0x94, CHR 0x84]"

definition bubble :: string where
  "bubble = [CHR 0xF0, CHR 0x9F, CHR 0x92, CHR 0xAC]"

definition inbox_tray :: string where
  "inbox_tray = [CHR 0xF0, CHR 0x9F, CHR 0x93, CHR 0xA5]"

text \<open>The third line under the title: \<open>${tweetData.engagement.likes ? `...` : ''}\<close>.\<close>

definition engagement_part :: "builtins \<Rightarrow> engagement \<Rightarrow> string" where
  "engagement_part js e =
     (if truthy_count (likes e)
      then ''**Engagement:** '' @ count_str js (likes e) @ '' '' @ heart @ '' '' @ middot
           @ '' '' @ count_str js (retweets e) @ '' '' @ arrows @ '' '' @ middot
           @ '' '' @ count_str js (replies e) @ '' '' @ bubble
      else [])"

definition frontmatter :: "builtins \<Rightarrow> string \<Rightarrow> tweetData \<Rightarrow> string \<Rightarrow> string" where
  "frontmatter js today td screenshotPath =
     ''---\<newline>created: '' @ today
     @ ''\<newline>source: twitter\<newline>author: '' @ author td
     @ ''\<newline>author_name: '' @ authorName td
     @ ''\<newline>date: '' @ or_else (date td) ''unknown''
     @ ''\<newline>tags: '' @ (case tags td of None \<Rightarrow> ''undefined'' | Some ts \<Rightarrow> stringify_tags js ts)
     @ ''\<newline>category: '' @ category td
     @ ''\<newline>confidence: ''
     @ (case confidence td of None \<Rightarrow> ''undefined'' | Some c \<Rightarrow> numToString js c)
     @ ''\<newline>screenshot: '' @ [CHR 0x22] @ ''[['' @ screenshotPath @ '']]'' @ [CHR 0x22]
     @ ''\<newline>---''"

definition relevanceLabel :: "real option \<Rightarrow> string" where
  "relevanceLabel x =
     (case x of None \<Rightarrow> ''Low''
      | Some v \<Rightarrow> if v \<ge> 0.8 then ''High'' else if v \<ge> 0.6 then ''Medium'' else ''Low'')"

definition research_entry :: "builtins \<Rightarrow> nat \<Rightarrow> research_result \<Rightarrow> string" where
  "research_entry js idx r =
     ''\<newline>'' @ numToString js (of_nat (idx + 1)) @ ''. **['' @ interpolate (res_title r)
     @ '']('' @ interpolate (res_url r) @ '')**\<newline>   - ''
     @ or_else (res_summary r) (interpolate (res_snippet r))
     @ ''\<newline>   - Relevance: '' @ relevanceLabel (res_relevance r) @ '' (''
     @ (case res_relevance r of None \<Rightarrow> ''NaN'' | Some v \<Rightarrow> toFixed0 js (v * 100)) @ ''%)''
     @ (case res_reason r of
          None \<Rightarrow> []
        | Some why \<Rightarrow> if why = [] then [] else ''\<newline>   - Why: '' @ why)
     @ ''\<newline>''"

definition researchSection :: "builtins \<Rightarrow> research_bundle option \<Rightarrow> string" where
  "researchSection js researchData =
     (case researchData of
        None \<Rightarrow> []
      | Some b \<Rightarrow>
          if results b = [] then []
          else ''\<newline>## Auto-Research\<newline>\<newline>**Search Query:** '' @ [CHR 0x22] @ query b
               @ [CHR 0x22] @ ''\<newline>\<newline>### Related Resources\<newline>''
               @ concat (map (\<lambda>(idx, r). research_entry js idx r) (enumerate 0 (results b))))"

definition note_head :: "tweetData \<Rightarrow> string" where
  "note_head td =
     ''# '' @ interpolate (title td)
     @ ''\<newline>\<newline>**Author:** '' @ authorName td @ '' ('' @ author td @ '')''
     @ ''\<newline>**Date:** '' @ or_else (date td) ''Unknown'' @ ''\<newline>''"

definition note_body :: "builtins \<Rightarrow> tweetData \<Rightarrow> string \<Rightarrow> research_bundle option \<Rightarrow> string" where
  "note_body js td screenshotPath researchData =
     ''\<newline>\<newline>## Tweet Content\<newline>\<newline>> '' @ tweetText td @ ''\<newline>\<newline>''
     @ (if hasImages td then ''\<newline>![['' @ screenshotPath @ '']]\<newline>'' else [])
     @ ''\<newline>\<newline>## Key Insights\<newline>\<newline>'' @ summary td
     @ ''\<newline>\<newline>## Relevance\<newline>\<newline>'' @ relevance td @ ''\<newline>''
     @ researchSection js researchData
     @ ''\<newline>\<newline>## Related Notes\<newline>\<newline>-\<newline>\<newline>---\<newline>''
     @ ''**Captured from:** [[00 - Inbox/'' @ inbox_tray @ '' Quick Capture|Quick Capture]]''
     @ ''\<newline>**Screenshot:** [['' @ screenshotPath @ '']]''"

text \<open>\<open>tweetData.engagement.likes\<close> raises when \<open>engagement\<close> is missing.\<close>

definition generateNote ::
  "builtins \<Rightarrow> string \<Rightarrow> tweetData \<Rightarrow> string \<Rightarrow> research_bundle option \<Rightarrow> error + string" where
  "generateNote js today td screenshotPath researchData =
     (case engagement td of
        None \<Rightarrow> Inl TypeError
      | Some e \<Rightarrow>
          Inr (frontmatter js today td screenshotPath @ ''\<newline>\<newline>''
               @ note_head td @ engagement_part js e
               @ note_body js td screenshotPath researchData))"

subsection \<open>\<open>saveNote\<close>\<close>

record save_result =
  saved :: bool
  path :: "string option"

definition saveNote :: "config \<Rightarrow> tweetData \<Rightarrow> string \<Rightarrow> screenshot \<Rightarrow> world \<Rightarrow> save_result result" where
  "saveNote cfg td noteContent shot w =
     (let dirPath = path_join (vaultPath cfg) (targetDir cfg td);
          made = (if \<not> existsSync dirPath w then mkdirSync dirPath w else (Inr (), w))
      in case made of
           (Inl e, w1) \<Rightarrow> (Inl e, w1)
         | (Inr _, w1) \<Rightarrow>
             (case title td of
                None \<Rightarrow> (Inl TypeError, w1)
              | Some t \<Rightarrow>
                  (let filePath = path_join dirPath (note_filename t) in
                   if dryRun cfg then (Inr \<lparr> saved = False, path = None \<rparr>, w1)
                   else case writeFileSync filePath noteContent w1 of
                          (Inl e, w2) \<Rightarrow> (Inl e, w2)
                        | (Inr _, w2) \<Rightarrow> (Inr \<lparr> saved = True, path = Some filePath \<rparr>, w2))))"

subsection \<open>\<open>logResult\<close>\<close>

definition log_header :: string where
  "log_header =
     ''# Tweet Processing Log\<newline>\<newline>Automated processing log for tweet screenshots.\<newline>\<newline>---\<newline>\<newline>''"

definition separator :: string where
  "separator = ''---\<newline>\<newline>''"

text \<open>\<open>String.prototype.indexOf\<close>: the least position of the pattern, or \<open>-1\<close>.\<close>

fun indexOf :: "string \<Rightarrow> string \<Rightarrow> int" where
  "indexOf [] p = (if p = [] then 0 else - 1)"
| "indexOf (c # cs) p =
     (if prefix p (c # cs) then 0
      else let r = indexOf cs p in if r < 0 then - 1 else r + 1)"

fun join :: "string \<Rightarrow> string list \<Rightarrow> string" where
  "join sep [] = []"
| "join sep [x] = x"
| "join sep (x # y # ys) = x @ sep @ join sep (y # ys)"

text \<open>
  \<open>path.basename(p, ext)\<close> for a path that does not end in a slash: the part after the
  last slash, without the extension unless the extension is all of it.
\<close>

definition basename :: "string \<Rightarrow> string \<Rightarrow> string" where
  "basename p ext =
     (let b = rev (takeWhile (\<lambda>c. c \<noteq> CHR ''/'') (rev p))
      in if suffix ext b \<and> b \<noteq> ext then take (length b - length ext) b else b)"

definition log_entry :: "string \<Rightarrow> tweetData \<Rightarrow> string list \<Rightarrow> screenshot \<Rightarrow> string \<Rightarrow> string" where
  "log_entry timestamp td ts shot notePath =
     ''## '' @ takeWhile (\<lambda>c. c \<noteq> CHR ''T'') timestamp @ '' - '' @ interpolate (title td)
     @ ''\<newline>\<newline>- **Author:** '' @ author td
     @ ''\<newline>- **Category:** '' @ category td
     @ ''\<newline>- **Tags:** '' @ join '', '' ts
     @ ''\<newline>- **Note:** [['' @ basename notePath ''.md'' @ '']]''
     @ ''\<newline>- **Screenshot:** [['' @ relativePath shot @ '']]''
     @ ''\<newline>- **Processed:** '' @ timestamp @ ''\<newline>\<newline>''"

text \<open>
  \<open>logContent.slice(0, headerEnd) + entry + logContent.slice(headerEnd)\<close> with
  \<open>headerEnd = logContent.indexOf('---\n\n') + 5\<close>, which is at least 4.
\<close>

definition insert_entry :: "string \<Rightarrow> string \<Rightarrow> string" where
  "insert_entry logContent entry =
     (let headerEnd = nat (indexOf logContent separator + 5)
      in take headerEnd logContent @ entry @ drop headerEnd logContent)"

definition log_path :: "config \<Rightarrow> string" where
  "log_path cfg = path_join (vaultPath cfg) (logFile cfg)"

definition logResult ::
  "config \<Rightarrow> string \<Rightarrow> tweetData \<Rightarrow> screenshot \<Rightarrow> string \<Rightarrow> world \<Rightarrow> unit result" where
  "logResult cfg timestamp td shot notePath w =
     (case (if existsSync (log_path cfg) w then readFileSync (log_path cfg) w
            else Inr log_header) of
        Inl e \<Rightarrow> (Inl e, w)
      | Inr logContent \<Rightarrow>
          (case tags td of
             None \<Rightarrow> (Inl TypeError, w)
           | Some ts \<Rightarrow>
               (let logContent' = insert_entry logContent (log_entry timestamp td ts shot notePath)
                in if \<not> dryRun cfg then writeFileSync (log_path cfg) logContent' w
                   else (Inr (), w))))"

text \<open>
  A sequence of \<open>logResult\<close> calls, each on the state the one before left, stopping at
  the first that raises; and the entry a call inserts.
\<close>

type_synonym log_call = "string \<times> tweetData \<times> screenshot \<times> string"

fun log_all :: "config \<Rightarrow> log_call list \<Rightarrow> world \<Rightarrow> unit result" where
  "log_all cfg [] w = (Inr (), w)"
| "log_all cfg ((t, td, shot, p) # rest) w =
     (case logResult cfg t td shot p w of
        (Inl e, w') \<Rightarrow> (Inl e, w')
      | (Inr _, w') \<Rightarrow> log_all cfg rest w')"

definition entry_of :: "log_call \<Rightarrow> string" where
  "entry_of c = (case c of (t, td, shot, p) \<Rightarrow>
     log_entry t td (case tags td of None \<Rightarrow> [] | Some ts \<Rightarrow> ts) shot p)"

subsection \<open>\<open>markAsProcessed\<close>\<close>

definition markAsProcessed :: "config \<Rightarrow> builtins \<Rightarrow> string \<Rightarrow> string \<Rightarrow> world \<Rightarrow> unit result" where
  "markAsProcessed cfg js timestamp fname w =
     (let w1 = w\<lparr> processedScreenshots :=
                    (processedScreenshots w)
                      (fname \<mapsto> \<lparr> processedAt = timestamp, provider = aiProvider cfg \<rparr>) \<rparr>
      in if \<not> dryRun cfg
         then writeFileSync (processedFile cfg) (stringify_processed js (processedScreenshots w1)) w1
         else (Inr (), w1))"

subsection \<open>\<open>main\<close>\<close>

text \<open>
  The step after \<open>saveNote\<close>: \<open>if (result.path) logResult(...)\<close>; a path is truthy
  when it is a non-empty string.
\<close>

definition log_step ::
  "config \<Rightarrow> string \<Rightarrow> tweetData \<Rightarrow> screenshot \<Rightarrow> save_result \<Rightarrow> world \<Rightarrow> unit result" where
  "log_step cfg timestamp td shot res w =
     (case path res of
        None \<Rightarrow> (Inr (), w)
      | Some p \<Rightarrow> if p = [] then (Inr (), w) else logResult cfg timestamp td shot p w)"

text \<open>
  The body of the \<open>try\<close> for one screenshot. The result is \<open>Inl\<close> when it raises (the
  \<open>catch\<close> then counts a failure), and otherwise tells whether \<open>processed++\<close> ran.
\<close>

definition processItem ::
  "config \<Rightarrow> services \<Rightarrow> builtins \<Rightarrow> screenshot \<Rightarrow> world \<Rightarrow> bool result" where
  "processItem cfg orc js shot w =
     (case analyzeScreenshot orc (fullPath shot) of
        Inl e \<Rightarrow> (Inl e, w)
      | Inr td \<Rightarrow>
          if confidence td = None \<or> tags td = None then (Inl TypeError, w)
          else
            (let researchData = performAutoResearch cfg orc td;
                 t = now orc (filename shot)
             in case generateNote js (takeWhile (\<lambda>c. c \<noteq> CHR ''T'') t) td
                       (relativePath shot) researchData of
                  Inl e \<Rightarrow> (Inl e, w)
                | Inr noteContent \<Rightarrow>
                    (case saveNote cfg td noteContent shot w of
                       (Inl e, w1) \<Rightarrow> (Inl e, w1)
                     | (Inr res, w1) \<Rightarrow>
                         if saved res \<or> dryRun cfg then
                           (case log_step cfg t td shot res w1 of
                              (Inl e, w2) \<Rightarrow> (Inl e, w2)
                            | (Inr _, w2) \<Rightarrow>
                                (case markAsProcessed cfg js t (filename shot) w2 of
                                   (Inl e, w3) \<Rightarrow> (Inl e, w3)
                                 | (Inr _, w3) \<Rightarrow> (Inr True, w3)))
                         else (Inr False, w1))))"

record counters =
  processed :: nat
  failed :: nat

fun process_all ::
  "config \<Rightarrow> services \<Rightarrow> builtins \<Rightarrow> screenshot list \<Rightarrow> counters \<times> world \<Rightarrow> counters \<times> world" where
  "process_all cfg orc js [] cw = cw"
| "process_all cfg orc js (shot # rest) (c, w) =
     (case processItem cfg orc js shot w of
        (Inl e, w') \<Rightarrow> process_all cfg orc js rest (c\<lparr> failed := failed c + 1 \<rparr>, w')
      | (Inr counted, w') \<Rightarrow>
          process_all cfg orc js rest
            (if counted then c\<lparr> processed := processed c + 1 \<rparr> else c, w'))"

text \<open>
  \<open>main\<close> returns the counters it prints in the summary, or nothing when it stops at
  ``No new screenshots to process''.
\<close>

definition main :: "config \<Rightarrow> services \<Rightarrow> builtins \<Rightarrow> world \<Rightarrow> counters option result" where
  "main cfg orc js w =
     (case findNewScreenshots cfg w of
        (Inl e, w0) \<Rightarrow> (Inl e, w0)
      | (Inr screenshots, w0) \<Rightarrow>
          if screenshots = [] then (Inr None, w0)
          else (let (c, w') = process_all cfg orc js screenshots
                                (\<lparr> processed = 0, failed = 0 \<rparr>, w0)
                in (Inr (Some c), w')))"

subsection \<open>A concrete run\<close>

text \<open>
  The end-to-end scenario: one screenshot in the vault, classified as a resource with
  confidence 0.92, no search engine configured, every write allowed.
\<close>

definition ex_engagement :: engagement where
  "ex_engagement = \<lparr> likes = Some 1200, retweets = Some 234, replies = Some 89 \<rparr>"

definition ex_tweet :: tweetData where
  "ex_tweet =
     \<lparr> author = ''@swyx'', authorName = ''Shawn Wang'', date = Some ''2026-01-04'',
       tweetText = ''Just shipped a RAG system.'', hasImages = False, hasThread = False,
       engagement = Some ex_engagement, category = ''resource'', confidence = Some 0.92,
       tags = Some [''ai'', ''rag'', ''claude'', ''llm'', ''search''],
       summary = ''Long context changes retrieval.'',
       title = Some ''Building RAG Systems with Claude'',
       relevance = ''Applies to the chatbot project.'' \<rparr>"

definition ex_builtins :: builtins where
  "ex_builtins =
     \<lparr> numToString = (\<lambda>x. ''n''), toFixed0 = (\<lambda>x. ''n''),
       stringify_tags = (\<lambda>ts. ''['' @ join '','' ts @ '']''),
       stringify_processed = (\<lambda>m. ''{}'') \<rparr>"

definition ex_services :: services where
  "ex_services =
     \<lparr> classify = (\<lambda>p. if p = ''v/Attachments/Xeets/a.png'' then Inr ex_tweet
                         else Inl (ApiError ''quota'')),
       query_gen = (\<lambda>td. Inr ''claude rag systems''),
       web_search = (\<lambda>q n. []),
       filter_call = (\<lambda>rs td. Inl SyntaxError),
       now = (\<lambda>f. ''2026-01-04T10:00:00.000Z'') \<rparr>"

definition ex_world :: world where
  "ex_world =
     \<lparr> files = Map.empty, dirs = {''v/Attachments/Xeets''},
       listing = (\<lambda>d. [''a.png'', ''b.png'', ''notes.txt'']), denied = {},
       processedScreenshots = Map.empty \<rparr>"

definition ex_results :: "research_result list" where
  "ex_results =
     [\<lparr> res_title = Some ''RAG guide'', res_url = Some ''https://example.org/rag'',
        res_snippet = Some ''How to build RAG'', res_relevance = None, res_reason = None,
        res_summary = None \<rparr>]"

definition ex_shot_a :: screenshot where
  "ex_shot_a = \<lparr> filename = ''a.png'', fullPath = ''v/Attachments/Xeets/a.png'',
                 relativePath = ''Attachments/Xeets/a.png'' \<rparr>"

definition ex_shot_b :: screenshot where
  "ex_shot_b = \<lparr> filename = ''b.png'', fullPath = ''v/Attachments/Xeets/b.png'',
                 relativePath = ''Attachments/Xeets/b.png'' \<rparr>"

definition ex_marker :: marker where
  "ex_marker = \<lparr> processedAt = ''2026-01-03T09:00:00.000Z'', provider = ''gemini'' \<rparr>"

definition ex_marked_world :: world where
  "ex_marked_world = ex_world\<lparr> processedScreenshots := [''a.png'' \<mapsto> ex_marker] \<rparr>"


definition ex_ready_world :: world where
  "ex_ready_world = ex_world\<lparr> dirs := {''v/Attachments/Xeets'', ''v/00 - Inbox''} \<rparr>"

definition ex_untitled :: services where
  "ex_untitled = ex_services\<lparr> classify := (\<lambda>p. Inr (ex_tweet\<lparr> title := None \<rparr>)) \<rparr>"

definition ex_call_1 :: log_call where
  "ex_call_1 = (''2026-01-04T10:00:00.000Z'', ex_tweet, ex_shot_a,
                ''v/03 - Resources/X Insights/first.md'')"

definition ex_call_2 :: log_call where
  "ex_call_2 = (''2026-01-05T11:00:00.000Z'', ex_tweet, ex_shot_b,
                ''v/03 - Resources/X Insights/second.md'')"

definition long_title :: string where
  "long_title = replicate 49 (CHR ''a'') @ '' b''"

text \<open>``Engagement data is present'', read as: one of the three counts is there.\<close>

definition has_engagement_data :: "engagement \<Rightarrow> bool" where
  "has_engagement_data e = (likes e \<noteq> None \<or> retweets e \<noteq> None \<or> replies e \<noteq> None)"

section \<open>Properties\<close>

subsection \<open>Routing\<close>

lemma targetDir_cases:
  "confidence td = Some c \<Longrightarrow>
   targetDir cfg td =
     (if c < confidenceThreshold cfg then unsureDir cfg
      else if category td = ''resource'' then resourcesDir cfg else projectsDir cfg)"
  by (simp add: targetDir_def)

lemma saveNote_live_path:
  assumes "saveNote cfg td content shot w = (Inr r, w')" and "\<not> dryRun cfg"
  shows "\<exists>t. title td = Some t \<and> saved r
           \<and> path r = Some (path_join (path_join (vaultPath cfg) (targetDir cfg td)) (note_filename t))
           \<and> files w' (path_join (path_join (vaultPath cfg) (targetDir cfg td)) (note_filename t))
               = Some content"
  using assms
  by (auto simp: saveNote_def Let_def mkdirSync_def writeFileSync_def
           split: if_splits option.splits prod.splits sum.splits)

text \<open>
  C1. For a record whose confidence lies in [0,1] and whose category is one of the two
  labels, the routing decision of \<open>saveNote\<close> is the review folder when the confidence is
  below the threshold, whatever the category; otherwise it is the resources folder for
  \<open>resource\<close> and the projects folder for \<open>project-idea\<close>. A note that \<open>saveNote\<close>
  writes is written under that folder.
\<close>

theorem routing_table_total:
  assumes "confidence td = Some c" and "0 \<le> c" and "c \<le> 1"
    and "category td = ''resource'' \<or> category td = ''project-idea''"
  shows "(c < confidenceThreshold cfg \<longrightarrow> targetDir cfg td = unsureDir cfg)
       \<and> (\<not> c < confidenceThreshold cfg \<longrightarrow> category td = ''resource''
            \<longrightarrow> targetDir cfg td = resourcesDir cfg)
       \<and> (\<not> c < confidenceThreshold cfg \<longrightarrow> category td = ''project-idea''
            \<longrightarrow> targetDir cfg td = projectsDir cfg)
       \<and> targetDir cfg td \<in> {unsureDir cfg, resourcesDir cfg, projectsDir cfg}
       \<and> (\<forall>content shot w r w'.
            \<not> dryRun cfg \<longrightarrow> saveNote cfg td content shot w = (Inr r, w')
            \<longrightarrow> (\<exists>t. path r = Some (path_join (path_join (vaultPath cfg) (targetDir cfg td))
                                        (note_filename t))))"
proof -
  have route: "targetDir cfg td =
      (if c < confidenceThreshold cfg then unsureDir cfg
       else if category td = ''resource'' then resourcesDir cfg else projectsDir cfg)"
    using assms(1) by (rule targetDir_cases)
  have written: "\<forall>content shot w r w'.
      \<not> dryRun cfg \<longrightarrow> saveNote cfg td content shot w = (Inr r, w')
      \<longrightarrow> (\<exists>t. path r = Some (path_join (path_join (vaultPath cfg) (targetDir cfg td))
                                  (note_filename t)))"
    using saveNote_live_path by blast
  from route assms(4) written show ?thesis by auto
qed

theorem routing_table_total_witness:
  "targetDir (CONFIG ''v'' ''d'' False) ex_tweet = ''03 - Resources/X Insights''
   \<and> targetDir (CONFIG ''v'' ''d'' False) (ex_tweet\<lparr>category := ''project-idea''\<rparr>)
       = ''01 - Projects/Ideas''
   \<and> targetDir (CONFIG ''v'' ''d'' False) (ex_tweet\<lparr>confidence := Some 0.5\<rparr>)
       = ''00 - Inbox/Xeets to Review''"
proof -
  let ?cfg = "CONFIG ''v'' ''d'' False"
  have thr: "confidenceThreshold ?cfg = 0.7" by (simp add: CONFIG_def)
  have a: "targetDir ?cfg ex_tweet = resourcesDir ?cfg"
    using routing_table_total [of ex_tweet "0.92" ?cfg] thr by (simp add: ex_tweet_def)
  have b: "targetDir ?cfg (ex_tweet\<lparr>category := ''project-idea''\<rparr>) = projectsDir ?cfg"
    using routing_table_total [of "ex_tweet\<lparr>category := ''project-idea''\<rparr>" "0.92" ?cfg] thr
    by (simp add: ex_tweet_def)
  have c: "targetDir ?cfg (ex_tweet\<lparr>confidence := Some 0.5\<rparr>) = unsureDir ?cfg"
    using routing_table_total [of "ex_tweet\<lparr>confidence := Some 0.5\<rparr>" "0.5" ?cfg] thr
    by (simp add: ex_tweet_def)
  from a b c show ?thesis by (simp add: CONFIG_def)
qed

subsection \<open>What each step changes\<close>

lemma mkdirSync_frame:
  "mkdirSync p w = (r, w') \<Longrightarrow>
   files w' = files w \<and> processedScreenshots w' = processedScreenshots w
   \<and> denied w' = denied w \<and> listing w' = listing w \<and> dirs w \<subseteq> dirs w'"
  by (auto simp: mkdirSync_def split: if_splits)

lemma writeFileSync_frame:
  "writeFileSync p c w = (r, w') \<Longrightarrow>
   dirs w' = dirs w \<and> processedScreenshots w' = processedScreenshots w
   \<and> denied w' = denied w \<and> listing w' = listing w
   \<and> (\<forall>q. q \<noteq> p \<longrightarrow> files w' q = files w q)"
  by (auto simp: writeFileSync_def split: if_splits)

lemma findNewScreenshots_frame:
  "findNewScreenshots cfg w = (r, w') \<Longrightarrow>
   files w' = files w \<and> processedScreenshots w' = processedScreenshots w"
  by (auto simp: findNewScreenshots_def Let_def mkdirSync_def
           split: if_splits prod.splits sum.splits)

lemma findNewScreenshots_unmarked:
  "findNewScreenshots cfg w = (Inr shots, w') \<Longrightarrow> s \<in> set shots \<Longrightarrow>
   processedScreenshots w (filename s) = None \<and> is_image (filename s)"
  by (auto simp: findNewScreenshots_def Let_def mkdirSync_def
           split: if_splits prod.splits sum.splits)

lemma saveNote_frame:
  "saveNote cfg td doc shot w = (r, w') \<Longrightarrow>
   processedScreenshots w' = processedScreenshots w \<and> (dryRun cfg \<longrightarrow> files w' = files w)"
  by (auto simp: saveNote_def Let_def mkdirSync_def writeFileSync_def
           split: if_splits prod.splits sum.splits option.splits)

lemma saveNote_failed:
  "saveNote cfg td doc shot w = (Inl e, w') \<Longrightarrow> files w' = files w"
  by (auto simp: saveNote_def Let_def mkdirSync_def writeFileSync_def
           split: if_splits prod.splits sum.splits option.splits)

lemma saveNote_saved_or_dry:
  "saveNote cfg td doc shot w = (Inr res, w') \<Longrightarrow>
   (dryRun cfg \<longrightarrow> \<not> saved res \<and> path res = None) \<and> (\<not> dryRun cfg \<longrightarrow> saved res)"
  by (auto simp: saveNote_def Let_def mkdirSync_def writeFileSync_def
           split: if_splits prod.splits sum.splits option.splits)

lemma logResult_frame:
  "logResult cfg t td shot p w = (r, w') \<Longrightarrow>
   processedScreenshots w' = processedScreenshots w \<and> (dryRun cfg \<longrightarrow> w' = w)"
  by (auto simp: logResult_def Let_def writeFileSync_def
           split: if_splits prod.splits sum.splits option.splits)

lemma log_step_frame:
  "log_step cfg t td shot res w = (r, w') \<Longrightarrow>
   processedScreenshots w' = processedScreenshots w \<and> (dryRun cfg \<longrightarrow> w' = w)"
  by (auto simp: log_step_def dest: logResult_frame split: option.splits if_splits)

lemma markAsProcessed_frame:
  "markAsProcessed cfg js t f w = (r, w') \<Longrightarrow>
   processedScreenshots w' = (processedScreenshots w)(f \<mapsto> \<lparr> processedAt = t, provider = aiProvider cfg \<rparr>)
   \<and> (dryRun cfg \<longrightarrow> files w' = files w)"
  by (auto simp: markAsProcessed_def Let_def writeFileSync_def split: if_splits)

lemma processItem_frame:
  assumes "processItem cfg orc js shot w = (r, w')"
  shows "(\<forall>X. X \<noteq> filename shot \<longrightarrow> processedScreenshots w' X = processedScreenshots w X)
       \<and> (\<forall>X. processedScreenshots w X \<noteq> None \<longrightarrow> processedScreenshots w' X \<noteq> None)
       \<and> (dryRun cfg \<longrightarrow> files w' = files w)"
  using assms
  by (auto simp: processItem_def Let_def
           split: sum.splits if_splits prod.splits
           dest!: saveNote_frame log_step_frame markAsProcessed_frame)

lemma processItem_counted:
  "processItem cfg orc js shot w = (Inr b, w') \<Longrightarrow> b"
  by (auto simp: processItem_def Let_def
           split: sum.splits if_splits prod.splits
           dest!: saveNote_saved_or_dry)


lemma process_all_frame:
  "process_all cfg orc js shots (c, w) = (c', w') \<Longrightarrow>
   (\<forall>X. X \<notin> filename ` set shots \<longrightarrow> processedScreenshots w' X = processedScreenshots w X)
   \<and> (\<forall>X. processedScreenshots w X \<noteq> None \<longrightarrow> processedScreenshots w' X \<noteq> None)
   \<and> (dryRun cfg \<longrightarrow> files w' = files w)"
proof (induction shots arbitrary: c w)
  case Nil
  then show ?case by simp
next
  case (Cons s rest)
  obtain r w1 where step: "processItem cfg orc js s w = (r, w1)"
    by (cases "processItem cfg orc js s w")
  obtain c1 where rest: "process_all cfg orc js rest (c1, w1) = (c', w')"
    using Cons.prems step by (auto split: sum.splits)
  note f1 = processItem_frame [OF step]
  note f2 = Cons.IH [OF rest]
  show ?case
  proof (intro conjI allI impI)
    fix X assume "X \<notin> filename ` set (s # rest)"
    then have "X \<noteq> filename s" and "X \<notin> filename ` set rest" by auto
    with f1 f2 show "processedScreenshots w' X = processedScreenshots w X" by simp
  next
    fix X assume "processedScreenshots w X \<noteq> None"
    with f1 f2 show "processedScreenshots w' X \<noteq> None" by blast
  next
    assume "dryRun cfg"
    with f1 f2 show "files w' = files w" by simp
  qed
qed

lemma process_all_counts:
  "process_all cfg orc js shots (c, w) = (c', w') \<Longrightarrow>
   processed c' + failed c' = processed c + failed c + length shots"
proof (induction shots arbitrary: c w)
  case Nil
  then show ?case by simp
next
  case (Cons s rest)
  obtain r w1 where step: "processItem cfg orc js s w = (r, w1)"
    by (cases "processItem cfg orc js s w")
  show ?case
  proof (cases r)
    case (Inl e)
    with Cons.prems step
    have "process_all cfg orc js rest (c\<lparr>failed := failed c + 1\<rparr>, w1) = (c', w')" by simp
    from Cons.IH [OF this] show ?thesis by simp
  next
    case (Inr b)
    with step have b by (auto dest: processItem_counted)
    with Inr Cons.prems step
    have "process_all cfg orc js rest (c\<lparr>processed := processed c + 1\<rparr>, w1) = (c', w')" by simp
    from Cons.IH [OF this] show ?thesis by simp
  qed
qed

lemma main_counts:
  assumes "fst (main cfg orc js w) = Inr (Some c)"
  shows "\<exists>shots w0. findNewScreenshots cfg w = (Inr shots, w0) \<and> shots \<noteq> []
           \<and> processed c + failed c = length shots"
proof -
  obtain r w0 where scan: "findNewScreenshots cfg w = (r, w0)"
    by (cases "findNewScreenshots cfg w")
  with assms obtain shots where r: "r = Inr shots" and ne: "shots \<noteq> []"
    by (cases r) (auto simp: main_def split: if_splits)
  obtain c' w' where run:
    "process_all cfg orc js shots (\<lparr>processed = 0, failed = 0\<rparr>, w0) = (c', w')"
    by (cases "process_all cfg orc js shots (\<lparr>processed = 0, failed = 0\<rparr>, w0)")
  with assms scan r ne have "c' = c" by (simp add: main_def)
  with process_all_counts [OF run] have "processed c + failed c = length shots" by simp
  with scan r ne show ?thesis by blast
qed

lemma main_frame:
  assumes "main cfg orc js w = (r, w')"
  shows "(\<forall>X. processedScreenshots w X \<noteq> None \<longrightarrow> processedScreenshots w' X = processedScreenshots w X)
       \<and> (dryRun cfg \<longrightarrow> files w' = files w)"
proof -
  obtain r0 w0 where scan: "findNewScreenshots cfg w = (r0, w0)"
    by (cases "findNewScreenshots cfg w")
  note f0 = findNewScreenshots_frame [OF scan]
  show ?thesis
  proof (cases r0)
    case (Inl e)
    with assms scan f0 show ?thesis by (simp add: main_def)
  next
    case (Inr shots)
    show ?thesis
    proof (cases "shots = []")
      case True
      with Inr assms scan f0 show ?thesis by (simp add: main_def)
    next
      case False
      obtain c' w1 where run:
        "process_all cfg orc js shots (\<lparr>processed = 0, failed = 0\<rparr>, w0) = (c', w1)"
        by (cases "process_all cfg orc js shots (\<lparr>processed = 0, failed = 0\<rparr>, w0)")
      with False Inr assms scan have w': "w' = w1" by (simp add: main_def)
      note f1 = process_all_frame [OF run]
      have un: "\<forall>X. processedScreenshots w X \<noteq> None \<longrightarrow> X \<notin> filename ` set shots"
        using findNewScreenshots_unmarked [OF scan [unfolded Inr]] by auto
      from f0 f1 un w' show ?thesis by simp
    qed
  qed
qed



lemma log_step_live:
  assumes "saveNote cfg td doc shot w = (Inr res, w1)" and "\<not> dryRun cfg"
  shows "\<exists>p. path res = Some p \<and> files w1 p = Some doc
           \<and> log_step cfg t td shot res w1 = logResult cfg t td shot p w1"
proof -
  from saveNote_live_path [OF assms] obtain ti where
    p: "path res = Some (path_join (path_join (vaultPath cfg) (targetDir cfg td)) (note_filename ti))"
    and f: "files w1 (path_join (path_join (vaultPath cfg) (targetDir cfg td)) (note_filename ti)) = Some doc"
    by blast
  have "path_join (path_join (vaultPath cfg) (targetDir cfg td)) (note_filename ti) \<noteq> []"
    by (simp add: path_join_def)
  with p f show ?thesis by (simp add: log_step_def)
qed


lemma process_all_single:
  assumes "process_all cfg orc js [shot] (c0, w1) = (c1, w2)"
  shows "(processed c1 = processed c0 + 1 \<and> failed c1 = failed c0)
       \<or> (processed c1 = processed c0 \<and> failed c1 = failed c0 + 1)"
proof -
  obtain r w' where step: "processItem cfg orc js shot w1 = (r, w')"
    by (cases "processItem cfg orc js shot w1")
  show ?thesis
  proof (cases r)
    case (Inl e)
    with assms step show ?thesis by auto
  next
    case (Inr b)
    with step have b by (auto dest: processItem_counted)
    with Inr assms step show ?thesis by auto
  qed
qed

subsection \<open>Scanning\<close>

text \<open>
  C2. When the processed set holds a marker for X, \<open>findNewScreenshots\<close> does not return
  X and leaves the marker alone; no step on any screenshot removes the marker; a whole
  run leaves the marker as it is, so the scan of any later state of the run does not
  return X either.
\<close>

theorem marked_never_offered:
  assumes "processedScreenshots w X = Some m"
  shows "(\<forall>shots w0. findNewScreenshots cfg w = (Inr shots, w0)
            \<longrightarrow> X \<notin> filename ` set shots \<and> processedScreenshots w0 X = Some m)
       \<and> (\<forall>shot. processedScreenshots (snd (processItem cfg orc js shot w)) X \<noteq> None)
       \<and> processedScreenshots (snd (main cfg orc js w)) X = Some m
       \<and> (\<forall>cfg' shots w0. findNewScreenshots cfg' (snd (main cfg orc js w)) = (Inr shots, w0)
            \<longrightarrow> X \<notin> filename ` set shots)"
proof -
  have scan: "\<And>c v shots w0. processedScreenshots v X \<noteq> None \<Longrightarrow>
      findNewScreenshots c v = (Inr shots, w0) \<Longrightarrow> X \<notin> filename ` set shots"
    by (auto dest: findNewScreenshots_unmarked)
  have a: "\<forall>shots w0. findNewScreenshots cfg w = (Inr shots, w0)
            \<longrightarrow> X \<notin> filename ` set shots \<and> processedScreenshots w0 X = Some m"
  proof (intro allI impI)
    fix shots w0
    assume f: "findNewScreenshots cfg w = (Inr shots, w0)"
    from assms have "processedScreenshots w X \<noteq> None" by simp
    from scan [OF this f] findNewScreenshots_frame [OF f] assms
    show "X \<notin> filename ` set shots \<and> processedScreenshots w0 X = Some m" by simp
  qed
  have b: "\<forall>shot. processedScreenshots (snd (processItem cfg orc js shot w)) X \<noteq> None"
  proof
    fix shot
    have "processItem cfg orc js shot w
            = (fst (processItem cfg orc js shot w), snd (processItem cfg orc js shot w))"
      by simp
    from processItem_frame [OF this] assms
    show "processedScreenshots (snd (processItem cfg orc js shot w)) X \<noteq> None" by simp
  qed
  have "main cfg orc js w = (fst (main cfg orc js w), snd (main cfg orc js w))" by simp
  from main_frame [OF this] assms
  have c: "processedScreenshots (snd (main cfg orc js w)) X = Some m" by simp
  have d: "\<forall>cfg' shots w0. findNewScreenshots cfg' (snd (main cfg orc js w)) = (Inr shots, w0)
            \<longrightarrow> X \<notin> filename ` set shots"
  proof (intro allI impI)
    fix cfg' shots w0
    assume f: "findNewScreenshots cfg' (snd (main cfg orc js w)) = (Inr shots, w0)"
    from c have "processedScreenshots (snd (main cfg orc js w)) X \<noteq> None" by simp
    from scan [OF this f] show "X \<notin> filename ` set shots" .
  qed
  from a b c d show ?thesis by (intro conjI)
qed

theorem marked_never_offered_witness:
  "fst (findNewScreenshots (CONFIG ''v'' ''d'' False) ex_marked_world) = Inr [ex_shot_b]
   \<and> processedScreenshots
       (snd (main (CONFIG ''v'' ''d'' False) ex_services ex_builtins ex_marked_world)) ''a.png''
     = Some ex_marker"
proof -
  have m: "processedScreenshots ex_marked_world ''a.png'' = Some ex_marker"
    by (simp add: ex_marked_world_def)
  have s: "fst (findNewScreenshots (CONFIG ''v'' ''d'' False) ex_marked_world) = Inr [ex_shot_b]"
    by code_simp
  from marked_never_offered [OF m] s show ?thesis by blast
qed

subsection \<open>The run counters\<close>

text \<open>
  C9. In a run that reaches the summary, in live and in dry-run mode alike, each
  discovered screenshot adds one to exactly one of the two counters, and the two
  counters of the summary add up to the number of discovered screenshots.
\<close>

theorem every_item_counted_once:
  assumes "fst (main cfg orc js w) = Inr (Some c)"
  shows "(\<exists>shots w0. findNewScreenshots cfg w = (Inr shots, w0) \<and> shots \<noteq> []
            \<and> processed c + failed c = length shots)
       \<and> (\<forall>shot c0 w1 c1 w2. process_all cfg orc js [shot] (c0, w1) = (c1, w2)
            \<longrightarrow> (processed c1 = processed c0 + 1 \<and> failed c1 = failed c0)
                \<or> (processed c1 = processed c0 \<and> failed c1 = failed c0 + 1))"
proof (rule conjI)
  from main_counts [OF assms]
  show "\<exists>shots w0. findNewScreenshots cfg w = (Inr shots, w0) \<and> shots \<noteq> []
            \<and> processed c + failed c = length shots" .
next
  show "\<forall>shot c0 w1 c1 w2. process_all cfg orc js [shot] (c0, w1) = (c1, w2)
            \<longrightarrow> (processed c1 = processed c0 + 1 \<and> failed c1 = failed c0)
                \<or> (processed c1 = processed c0 \<and> failed c1 = failed c0 + 1)"
    by (intro allI impI) (rule process_all_single)
qed

theorem every_item_counted_once_witness:
  "fst (main (CONFIG ''v'' ''d'' False) ex_services ex_builtins ex_world)
     = Inr (Some \<lparr> processed = 1, failed = 1 \<rparr>)
   \<and> (\<exists>shots w0. findNewScreenshots (CONFIG ''v'' ''d'' False) ex_world = (Inr shots, w0)
         \<and> shots \<noteq> [] \<and> (1::nat) + 1 = length shots)"
proof -
  have live: "fst (main (CONFIG ''v'' ''d'' False) ex_services ex_builtins ex_world)
     = Inr (Some \<lparr> processed = 1, failed = 1 \<rparr>)"
    by code_simp
  from every_item_counted_once [OF live]
  have "\<exists>shots w0. findNewScreenshots (CONFIG ''v'' ''d'' False) ex_world = (Inr shots, w0)
         \<and> shots \<noteq> [] \<and> (1::nat) + 1 = length shots"
    by simp
  with live show ?thesis by (intro conjI)
qed

subsection \<open>Dry run\<close>




subsection \<open>The order of the commit\<close>

lemma saveNote_failed_world:
  "saveNote cfg td doc shot w = (Inl e, w') \<Longrightarrow>
   w' = w\<lparr>dirs := dirs w'\<rparr> \<and> dirs w \<subseteq> dirs w'
   \<and> dirs w' \<subseteq> insert (path_join (vaultPath cfg) (targetDir cfg td)) (dirs w)"
  by (auto simp: saveNote_def Let_def mkdirSync_def writeFileSync_def
           split: if_splits prod.splits sum.splits option.splits)

lemma logResult_written:
  assumes "logResult cfg t td shot p w = (Inr u, w')" and "\<not> dryRun cfg"
  shows "\<exists>ts c. tags td = Some ts
           \<and> (if existsSync (log_path cfg) w then files w (log_path cfg) = Some c
               else c = log_header)
           \<and> files w' (log_path cfg) = Some (insert_entry c (log_entry t td ts shot p))"
  using assms
  by (auto simp: logResult_def Let_def writeFileSync_def readFileSync_def
           split: if_splits sum.splits option.splits)

text \<open>
  C5, as stated: the marker is written last, and an item that fails in the
  classification, the formatting or the saving leaves no partial state behind. The
  second part fails for a classification without a title in a vault whose resources
  folder does not exist yet: \<open>saveNote\<close> creates the folder, then raises on
  \<open>title.toLowerCase()\<close>; the item is counted as failed and the folder stays.
\<close>

theorem failed_save_leaves_directory_counterexample:
  "analyzeScreenshot ex_untitled (fullPath ex_shot_a) = Inr (ex_tweet\<lparr> title := None \<rparr>)
   \<and> (case generateNote ex_builtins ''2026-01-04'' (ex_tweet\<lparr> title := None \<rparr>)
              (relativePath ex_shot_a)
              (performAutoResearch (CONFIG ''v'' ''d'' False) ex_untitled
                 (ex_tweet\<lparr> title := None \<rparr>)) of
         Inl e \<Rightarrow> False
       | Inr doc \<Rightarrow>
           fst (saveNote (CONFIG ''v'' ''d'' False) (ex_tweet\<lparr> title := None \<rparr>) doc ex_shot_a
                  ex_ready_world) = Inl TypeError)
   \<and> fst (processItem (CONFIG ''v'' ''d'' False) ex_untitled ex_builtins ex_shot_a ex_ready_world)
       = Inl TypeError
   \<and> snd (processItem (CONFIG ''v'' ''d'' False) ex_untitled ex_builtins ex_shot_a ex_ready_world)
       \<noteq> ex_ready_world"
proof -
  let ?w = "snd (processItem (CONFIG ''v'' ''d'' False) ex_untitled ex_builtins ex_shot_a
                  ex_ready_world)"
  have a: "analyzeScreenshot ex_untitled (fullPath ex_shot_a) = Inr (ex_tweet\<lparr> title := None \<rparr>)"
    by (simp add: analyzeScreenshot_def ex_untitled_def)
  have s: "case generateNote ex_builtins ''2026-01-04'' (ex_tweet\<lparr> title := None \<rparr>)
              (relativePath ex_shot_a)
              (performAutoResearch (CONFIG ''v'' ''d'' False) ex_untitled
                 (ex_tweet\<lparr> title := None \<rparr>)) of
         Inl e \<Rightarrow> False
       | Inr doc \<Rightarrow>
           fst (saveNote (CONFIG ''v'' ''d'' False) (ex_tweet\<lparr> title := None \<rparr>) doc ex_shot_a
                  ex_ready_world) = Inl TypeError"
    by code_simp
  have b: "fst (processItem (CONFIG ''v'' ''d'' False) ex_untitled ex_builtins ex_shot_a
                 ex_ready_world) = Inl TypeError"
    by code_simp
  have c: "''v/03 - Resources/X Insights'' \<in> dirs ?w" by code_simp
  have d: "''v/03 - Resources/X Insights'' \<notin> dirs ex_ready_world" by code_simp
  from c d have "?w \<noteq> ex_ready_world" by metis
  with a s b show ?thesis by (intro conjI)
qed

text \<open>
  C5, amended. Whenever processing a screenshot changes the processed set, the
  classification, the formatting and \<open>saveNote\<close> have all returned normally, and then,
  in a live run, the note is in its file, \<open>logResult\<close> has returned normally on the
  state \<open>saveNote\<close> left and the log document holds the item's entry, inserted into
  what the document was (or into the fresh header); the final state is the one
  \<open>markAsProcessed\<close> produces from there (in a dry run, from the state \<open>saveNote\<close>
  left), with the item's marker in the set. When the classification, the formatting or
  \<open>saveNote\<close> raises, the screenshot is counted as failed, the processed set and every
  file are as before, and nothing else has changed except that the note's destination
  folder may have been created.
\<close>

theorem marker_only_after_commit:
  assumes "processItem cfg orc js shot w = (r, w')"
  shows "(processedScreenshots w' \<noteq> processedScreenshots w \<longrightarrow>
          (\<exists>td doc res w1 w2.
              analyzeScreenshot orc (fullPath shot) = Inr td
            \<and> generateNote js (takeWhile (\<lambda>c. c \<noteq> CHR ''T'') (now orc (filename shot))) td
                 (relativePath shot) (performAutoResearch cfg orc td) = Inr doc
            \<and> saveNote cfg td doc shot w = (Inr res, w1)
            \<and> (if dryRun cfg then w2 = w1
                else \<exists>p ts c. path res = Some p \<and> files w1 p = Some doc
                       \<and> logResult cfg (now orc (filename shot)) td shot p w1 = (Inr (), w2)
                       \<and> tags td = Some ts
                       \<and> (if existsSync (log_path cfg) w1
                           then files w1 (log_path cfg) = Some c else c = log_header)
                       \<and> files w2 (log_path cfg)
                           = Some (insert_entry c
                                     (log_entry (now orc (filename shot)) td ts shot p)))
            \<and> snd (markAsProcessed cfg js (now orc (filename shot)) (filename shot) w2) = w'
            \<and> processedScreenshots w'
                = (processedScreenshots w)
                    (filename shot \<mapsto> \<lparr> processedAt = now orc (filename shot),
                                        provider = aiProvider cfg \<rparr>)))
       \<and> ((\<exists>e. analyzeScreenshot orc (fullPath shot) = Inl e)
          \<or> (\<exists>td e. analyzeScreenshot orc (fullPath shot) = Inr td
                \<and> generateNote js (takeWhile (\<lambda>c. c \<noteq> CHR ''T'') (now orc (filename shot))) td
                     (relativePath shot) (performAutoResearch cfg orc td) = Inl e)
          \<or> (\<exists>td doc e w1. analyzeScreenshot orc (fullPath shot) = Inr td
                \<and> generateNote js (takeWhile (\<lambda>c. c \<noteq> CHR ''T'') (now orc (filename shot))) td
                     (relativePath shot) (performAutoResearch cfg orc td) = Inr doc
                \<and> saveNote cfg td doc shot w = (Inl e, w1))
          \<longrightarrow> processedScreenshots w' = processedScreenshots w \<and> files w' = files w
              \<and> w' = w\<lparr>dirs := dirs w'\<rparr> \<and> dirs w \<subseteq> dirs w'
              \<and> dirs w' \<subseteq> dirs w \<union> {path_join (vaultPath cfg) (targetDir cfg td) | td.
                                        analyzeScreenshot orc (fullPath shot) = Inr td}
              \<and> (\<exists>e. r = Inl e))"
proof (rule conjI; rule impI)
  assume changed: "processedScreenshots w' \<noteq> processedScreenshots w"
  let ?t = "now orc (filename shot)"
  from assms changed obtain td where td: "analyzeScreenshot orc (fullPath shot) = Inr td"
    by (cases "analyzeScreenshot orc (fullPath shot)") (auto simp: processItem_def)
  from assms changed td have ok: "\<not> (confidence td = None \<or> tags td = None)"
    by (auto simp: processItem_def)
  from assms changed td ok obtain doc where doc:
    "generateNote js (takeWhile (\<lambda>c. c \<noteq> CHR ''T'') ?t) td (relativePath shot)
       (performAutoResearch cfg orc td) = Inr doc"
    by (cases "generateNote js (takeWhile (\<lambda>c. c \<noteq> CHR ''T'') ?t) td (relativePath shot)
       (performAutoResearch cfg orc td)") (auto simp: processItem_def Let_def)
  obtain sr w1 where save: "saveNote cfg td doc shot w = (sr, w1)"
    by (cases "saveNote cfg td doc shot w")
  note sf = saveNote_frame [OF save]
  from assms changed td ok doc save sf obtain res where res: "sr = Inr res"
    by (cases sr) (auto simp: processItem_def Let_def)
  note sd = saveNote_saved_or_dry [OF save [unfolded res]]
  obtain lr w2 where logged: "log_step cfg ?t td shot res w1 = (lr, w2)"
    by (cases "log_step cfg ?t td shot res w1")
  note lf = log_step_frame [OF logged]
  from sd have go: "saved res \<or> dryRun cfg" by blast
  from assms changed td ok doc save res logged go sf lf have lr: "lr = Inr ()"
    by (cases lr) (auto simp: processItem_def Let_def)
  from assms td ok doc save res logged go lr
  have w': "snd (markAsProcessed cfg js ?t (filename shot) w2) = w'"
    by (auto simp: processItem_def Let_def split: prod.splits sum.splits)
  have "markAsProcessed cfg js ?t (filename shot) w2
          = (fst (markAsProcessed cfg js ?t (filename shot) w2), w')"
    using w' by (simp add: prod_eq_iff)
  from markAsProcessed_frame [OF this] sf lf
  have mark: "processedScreenshots w'
      = (processedScreenshots w)
          (filename shot \<mapsto> \<lparr> processedAt = ?t, provider = aiProvider cfg \<rparr>)"
    by simp
  have mid: "if dryRun cfg then w2 = w1
             else \<exists>p ts c. path res = Some p \<and> files w1 p = Some doc
                    \<and> logResult cfg ?t td shot p w1 = (Inr (), w2)
                    \<and> tags td = Some ts
                    \<and> (if existsSync (log_path cfg) w1
                        then files w1 (log_path cfg) = Some c else c = log_header)
                    \<and> files w2 (log_path cfg)
                        = Some (insert_entry c (log_entry ?t td ts shot p))"
  proof (cases "dryRun cfg")
    case True
    with lf show ?thesis by simp
  next
    case False
    from log_step_live [OF save [unfolded res] False, of ?t] logged lr
    obtain p where p: "path res = Some p" "files w1 p = Some doc"
      "logResult cfg ?t td shot p w1 = (Inr (), w2)" by auto
    from logResult_written [OF p(3) False] obtain ts c where
      "tags td = Some ts"
      "if existsSync (log_path cfg) w1 then files w1 (log_path cfg) = Some c else c = log_header"
      "files w2 (log_path cfg) = Some (insert_entry c (log_entry ?t td ts shot p))"
      by blast
    with p False show ?thesis by auto
  qed
  from td doc save res mid w' mark
  show "\<exists>td doc res w1 w2.
              analyzeScreenshot orc (fullPath shot) = Inr td
            \<and> generateNote js (takeWhile (\<lambda>c. c \<noteq> CHR ''T'') (now orc (filename shot))) td
                 (relativePath shot) (performAutoResearch cfg orc td) = Inr doc
            \<and> saveNote cfg td doc shot w = (Inr res, w1)
            \<and> (if dryRun cfg then w2 = w1
                else \<exists>p ts c. path res = Some p \<and> files w1 p = Some doc
                       \<and> logResult cfg (now orc (filename shot)) td shot p w1 = (Inr (), w2)
                       \<and> tags td = Some ts
                       \<and> (if existsSync (log_path cfg) w1
                           then files w1 (log_path cfg) = Some c else c = log_header)
                       \<and> files w2 (log_path cfg)
                           = Some (insert_entry c
                                     (log_entry (now orc (filename shot)) td ts shot p)))
            \<and> snd (markAsProcessed cfg js (now orc (filename shot)) (filename shot) w2) = w'
            \<and> processedScreenshots w'
                = (processedScreenshots w)
                    (filename shot \<mapsto> \<lparr> processedAt = now orc (filename shot),
                                        provider = aiProvider cfg \<rparr>)"
    by blast
next
  let ?t = "now orc (filename shot)"
  let ?gen = "\<lambda>td. generateNote js (takeWhile (\<lambda>c. c \<noteq> CHR ''T'') ?t) td
                     (relativePath shot) (performAutoResearch cfg orc td)"
  let ?D = "{path_join (vaultPath cfg) (targetDir cfg td) | td.
               analyzeScreenshot orc (fullPath shot) = Inr td}"
  assume err: "(\<exists>e. analyzeScreenshot orc (fullPath shot) = Inl e)
          \<or> (\<exists>td e. analyzeScreenshot orc (fullPath shot) = Inr td \<and> ?gen td = Inl e)
          \<or> (\<exists>td doc e w1. analyzeScreenshot orc (fullPath shot) = Inr td
                \<and> ?gen td = Inr doc \<and> saveNote cfg td doc shot w = (Inl e, w1))"
  have same: "w' = w \<or> (\<exists>td doc e. analyzeScreenshot orc (fullPath shot) = Inr td
                \<and> saveNote cfg td doc shot w = (Inl e, w'))" and fail: "\<exists>e. r = Inl e"
    using assms err by (auto simp: processItem_def Let_def split: if_splits)
  from same show "processedScreenshots w' = processedScreenshots w \<and> files w' = files w
              \<and> w' = w\<lparr>dirs := dirs w'\<rparr> \<and> dirs w \<subseteq> dirs w' \<and> dirs w' \<subseteq> dirs w \<union> ?D
              \<and> (\<exists>e. r = Inl e)"
  proof
    assume "w' = w"
    with fail show ?thesis by simp
  next
    assume "\<exists>td doc e. analyzeScreenshot orc (fullPath shot) = Inr td
                \<and> saveNote cfg td doc shot w = (Inl e, w')"
    then obtain td doc e where td: "analyzeScreenshot orc (fullPath shot) = Inr td"
      and s: "saveNote cfg td doc shot w = (Inl e, w')" by blast
    note a = saveNote_failed_world [OF s]
    note b = saveNote_frame [OF s]
    note c = saveNote_failed [OF s]
    from td have "path_join (vaultPath cfg) (targetDir cfg td) \<in> ?D" by blast
    with a have "dirs w' \<subseteq> dirs w \<union> ?D" by blast
    with a b c fail show ?thesis by simp
  qed
qed

theorem marker_only_after_commit_witness:
  "processedScreenshots
     (snd (processItem (CONFIG ''v'' ''d'' False) ex_services ex_builtins ex_shot_a ex_ready_world))
   = [''a.png'' \<mapsto> \<lparr> processedAt = ''2026-01-04T10:00:00.000Z'', provider = ''gemini'' \<rparr>]
   \<and> snd (processItem (CONFIG ''v'' ''d'' False) ex_services ex_builtins ex_shot_b ex_ready_world)
     = ex_ready_world"
proof -
  let ?cfg = "CONFIG ''v'' ''d'' False"
  let ?wa = "snd (processItem ?cfg ex_services ex_builtins ex_shot_a ex_ready_world)"
  let ?wb = "snd (processItem ?cfg ex_services ex_builtins ex_shot_b ex_ready_world)"
  have a: "processedScreenshots ?wa ''a.png''
      = Some \<lparr> processedAt = ''2026-01-04T10:00:00.000Z'', provider = ''gemini'' \<rparr>"
    by code_simp
  have empty: "processedScreenshots ex_ready_world = Map.empty"
    by (simp add: ex_ready_world_def ex_world_def)
  with a have changed: "processedScreenshots ?wa \<noteq> processedScreenshots ex_ready_world"
    by (metis option.distinct(1))
  have stepa: "processItem ?cfg ex_services ex_builtins ex_shot_a ex_ready_world
      = (fst (processItem ?cfg ex_services ex_builtins ex_shot_a ex_ready_world), ?wa)"
    by simp
  from marker_only_after_commit [OF stepa] changed
  have "processedScreenshots ?wa
      = (processedScreenshots ex_ready_world)
          (filename ex_shot_a \<mapsto> \<lparr> processedAt = now ex_services (filename ex_shot_a),
                                    provider = aiProvider ?cfg \<rparr>)"
    by blast
  then have ma: "processedScreenshots ?wa
      = [''a.png'' \<mapsto> \<lparr> processedAt = ''2026-01-04T10:00:00.000Z'', provider = ''gemini'' \<rparr>]"
    by (simp add: empty ex_shot_a_def ex_services_def CONFIG_def)
  have fails: "analyzeScreenshot ex_services (fullPath ex_shot_b) = Inl (ApiError ''quota'')"
    by (simp add: analyzeScreenshot_def ex_services_def ex_shot_b_def)
  then have none: "{path_join (vaultPath ?cfg) (targetDir ?cfg td) | td.
      analyzeScreenshot ex_services (fullPath ex_shot_b) = Inr td} = {}" by simp
  have stepb: "processItem ?cfg ex_services ex_builtins ex_shot_b ex_ready_world
      = (fst (processItem ?cfg ex_services ex_builtins ex_shot_b ex_ready_world), ?wb)"
    by simp
  from marker_only_after_commit [OF stepb] fails
  have "?wb = ex_ready_world\<lparr>dirs := dirs ?wb\<rparr> \<and> dirs ex_ready_world \<subseteq> dirs ?wb
      \<and> dirs ?wb \<subseteq> dirs ex_ready_world \<union> {path_join (vaultPath ?cfg) (targetDir ?cfg td) | td.
            analyzeScreenshot ex_services (fullPath ex_shot_b) = Inr td}"
    by blast
  with none have "?wb = ex_ready_world\<lparr>dirs := dirs ?wb\<rparr>" and "dirs ?wb = dirs ex_ready_world"
    by auto
  then have "?wb = ex_ready_world" by simp
  with ma show ?thesis by (intro conjI)
qed


subsection \<open>The processing log\<close>

lemma indexOf_prefix: "prefix p s \<Longrightarrow> indexOf s p = 0"
  by (cases s) auto

lemma indexOf_first_occurrence:
  "\<forall>j<length a. \<not> prefix p (drop j (a @ p @ b)) \<Longrightarrow> indexOf (a @ p @ b) p = int (length a)"
proof (induction a)
  case Nil
  have "prefix p (p @ b)" by simp
  then show ?case by (simp add: indexOf_prefix)
next
  case (Cons x a)
  from Cons.prems have "\<not> prefix p (drop 0 ((x # a) @ p @ b))" by blast
  then have np: "\<not> prefix p (x # a @ p @ b)" by simp
  have "\<forall>j<length a. \<not> prefix p (drop j (a @ p @ b))"
  proof (intro allI impI)
    fix j assume "j < length a"
    then have "Suc j < length (x # a)" by simp
    with Cons.prems have "\<not> prefix p (drop (Suc j) ((x # a) @ p @ b))" by blast
    then show "\<not> prefix p (drop j (a @ p @ b))" by simp
  qed
  from Cons.IH [OF this] np show ?case by simp
qed

lemma insert_after_first_separator:
  assumes "\<forall>j<length a. \<not> prefix separator (drop j (a @ separator @ b))"
  shows "insert_entry (a @ separator @ b) e = a @ separator @ e @ b"
proof -
  have "length separator = 5" by (simp add: separator_def)
  with indexOf_first_occurrence [OF assms]
  show ?thesis by (simp add: insert_entry_def Let_def)
qed

lemma header_separator: "indexOf (log_header @ rest) separator = int (length log_header) - 5"
  by (simp add: log_header_def separator_def)

lemma insert_entry_header: "insert_entry (log_header @ rest) e = log_header @ e @ rest"
  by (simp add: insert_entry_def Let_def header_separator)

lemma logResult_fresh:
  assumes "\<not> dryRun cfg" and "log_path cfg \<notin> denied w" and "\<not> existsSync (log_path cfg) w"
    and "tags td = Some ts"
  shows "logResult cfg t td shot p w
           = (Inr (), w\<lparr>files := (files w)(log_path cfg \<mapsto> log_header @ log_entry t td ts shot p)\<rparr>)"
  using assms insert_entry_header [of "[]"]
  by (simp add: logResult_def Let_def writeFileSync_def)

lemma logResult_existing:
  assumes "\<not> dryRun cfg" and "log_path cfg \<notin> denied w"
    and "files w (log_path cfg) = Some (log_header @ rest)" and "tags td = Some ts"
  shows "logResult cfg t td shot p w
           = (Inr (), w\<lparr>files := (files w)(log_path cfg \<mapsto> log_header @ log_entry t td ts shot p @ rest)\<rparr>)"
  using assms
  by (simp add: logResult_def Let_def writeFileSync_def existsSync_def readFileSync_def
                insert_entry_header)

lemma log_all_existing:
  assumes "\<not> dryRun cfg"
  shows "log_path cfg \<notin> denied w \<Longrightarrow> files w (log_path cfg) = Some (log_header @ rest) \<Longrightarrow>
         \<forall>c\<in>set calls. tags (fst (snd c)) \<noteq> None \<Longrightarrow>
         fst (log_all cfg calls w) = Inr ()
         \<and> files (snd (log_all cfg calls w)) (log_path cfg)
             = Some (log_header @ concat (rev (map entry_of calls)) @ rest)"
proof (induction calls arbitrary: w rest)
  case Nil
  then show ?case by simp
next
  case (Cons c calls)
  obtain t td shot p where c: "c = (t, td, shot, p)" by (cases c) auto
  with Cons.prems(3) obtain ts where ts: "tags td = Some ts" by auto
  let ?e = "log_entry t td ts shot p"
  let ?w = "w\<lparr>files := (files w)(log_path cfg \<mapsto> log_header @ ?e @ rest)\<rparr>"
  have step: "logResult cfg t td shot p w = (Inr (), ?w)"
    using logResult_existing [OF assms Cons.prems(1,2) ts] .
  have e: "entry_of c = ?e" by (simp add: entry_of_def c ts)
  have "log_path cfg \<notin> denied ?w" using Cons.prems(1) by simp
  moreover have "files ?w (log_path cfg) = Some (log_header @ (?e @ rest))" by simp
  moreover have "\<forall>c\<in>set calls. tags (fst (snd c)) \<noteq> None" using Cons.prems(3) by simp
  ultimately have "fst (log_all cfg calls ?w) = Inr ()
      \<and> files (snd (log_all cfg calls ?w)) (log_path cfg)
          = Some (log_header @ concat (rev (map entry_of calls)) @ (?e @ rest))"
    by (rule Cons.IH)
  with step c e show ?case by simp
qed

lemma log_all_fresh:
  assumes "\<not> dryRun cfg" and "log_path cfg \<notin> denied w" and "\<not> existsSync (log_path cfg) w"
    and "\<forall>c\<in>set calls. tags (fst (snd c)) \<noteq> None" and "calls \<noteq> []"
  shows "fst (log_all cfg calls w) = Inr ()
       \<and> files (snd (log_all cfg calls w)) (log_path cfg)
           = Some (log_header @ concat (rev (map entry_of calls)))"
proof -
  from assms(5) obtain c rest where calls: "calls = c # rest" by (cases calls) auto
  obtain t td shot p where c: "c = (t, td, shot, p)" by (cases c) auto
  with assms(4) calls obtain ts where ts: "tags td = Some ts" by auto
  let ?e = "log_entry t td ts shot p"
  let ?w = "w\<lparr>files := (files w)(log_path cfg \<mapsto> log_header @ ?e)\<rparr>"
  have step: "logResult cfg t td shot p w = (Inr (), ?w)"
    using logResult_fresh [OF assms(1,2,3) ts] .
  have e: "entry_of c = ?e" by (simp add: entry_of_def c ts)
  have "log_path cfg \<notin> denied ?w" using assms(2) by simp
  moreover have "files ?w (log_path cfg) = Some (log_header @ ?e)" by simp
  moreover have "\<forall>c\<in>set rest. tags (fst (snd c)) \<noteq> None" using assms(4) calls by simp
  ultimately have "fst (log_all cfg rest ?w) = Inr ()
      \<and> files (snd (log_all cfg rest ?w)) (log_path cfg)
          = Some (log_header @ concat (rev (map entry_of rest)) @ ?e)"
    by (rule log_all_existing [OF assms(1)])
  with step c e calls show ?thesis by simp
qed

lemma logResult_inserts:
  assumes "\<not> dryRun cfg" and "log_path cfg \<notin> denied w"
    and "files w (log_path cfg) = Some (a @ separator @ b)"
    and "\<forall>j<length a. \<not> prefix separator (drop j (a @ separator @ b))"
    and "tags td = Some ts"
  shows "logResult cfg t td shot p w
           = (Inr (), w\<lparr>files := (files w)(log_path cfg \<mapsto>
                                     a @ separator @ log_entry t td ts shot p @ b)\<rparr>)"
  using assms(1,2,3,5) insert_after_first_separator [OF assms(4)]
  by (simp add: logResult_def Let_def writeFileSync_def existsSync_def readFileSync_def)

text \<open>
  C6. On a vault without a log document, a non-empty sequence of \<open>logResult\<close> calls
  (live mode, the log writable) leaves the document as the fixed header, which ends
  with the separator line, followed by the entries in reverse order of the calls, the
  newest first, and nothing else: the header is there once. On a document that starts
  with the header, the new entries go between the header and what followed it, newest
  first. On a document that
  contains the separator, a call puts its entry right after the first occurrence of the
  separator and leaves the text before and after as it was.
\<close>

theorem log_newest_first:
  assumes "\<not> dryRun cfg" and "log_path cfg \<notin> denied w" and "\<not> existsSync (log_path cfg) w"
    and "\<forall>c\<in>set calls. tags (fst (snd c)) \<noteq> None" and "calls \<noteq> []"
  shows "fst (log_all cfg calls w) = Inr ()
       \<and> files (snd (log_all cfg calls w)) (log_path cfg)
           = Some (log_header @ concat (rev (map entry_of calls)))
       \<and> suffix separator log_header
       \<and> (\<forall>rest w1.
            log_path cfg \<notin> denied w1 \<longrightarrow> files w1 (log_path cfg) = Some (log_header @ rest)
            \<longrightarrow> files (snd (log_all cfg calls w1)) (log_path cfg)
                  = Some (log_header @ concat (rev (map entry_of calls)) @ rest))
       \<and> (\<forall>a b t td ts shot p w1.
            log_path cfg \<notin> denied w1 \<longrightarrow> files w1 (log_path cfg) = Some (a @ separator @ b)
            \<longrightarrow> (\<forall>j<length a. \<not> prefix separator (drop j (a @ separator @ b)))
            \<longrightarrow> tags td = Some ts
            \<longrightarrow> logResult cfg t td shot p w1
                  = (Inr (), w1\<lparr>files := (files w1)(log_path cfg \<mapsto>
                                      a @ separator @ log_entry t td ts shot p @ b)\<rparr>))"
proof -
  note seq = log_all_fresh [OF assms]
  have hdr: "suffix separator log_header"
    by (simp add: log_header_def separator_def suffix_def)
  have one: "\<forall>a b t td ts shot p w1.
            log_path cfg \<notin> denied w1 \<longrightarrow> files w1 (log_path cfg) = Some (a @ separator @ b)
            \<longrightarrow> (\<forall>j<length a. \<not> prefix separator (drop j (a @ separator @ b)))
            \<longrightarrow> tags td = Some ts
            \<longrightarrow> logResult cfg t td shot p w1
                  = (Inr (), w1\<lparr>files := (files w1)(log_path cfg \<mapsto>
                                      a @ separator @ log_entry t td ts shot p @ b)\<rparr>)"
    by (intro allI impI) (rule logResult_inserts [OF assms(1)])
  have more: "\<forall>rest w1.
            log_path cfg \<notin> denied w1 \<longrightarrow> files w1 (log_path cfg) = Some (log_header @ rest)
            \<longrightarrow> files (snd (log_all cfg calls w1)) (log_path cfg)
                  = Some (log_header @ concat (rev (map entry_of calls)) @ rest)"
    using log_all_existing [OF assms(1) _ _ assms(4)] by blast
  from seq hdr more one show ?thesis by (intro conjI) simp_all
qed

theorem log_newest_first_witness:
  "files (snd (log_all (CONFIG ''v'' ''d'' False) [ex_call_1, ex_call_2] ex_world))
     ''v/00 - Inbox/Xeet Processing Log.md''
   = Some (log_header @ entry_of ex_call_2 @ entry_of ex_call_1)"
proof -
  let ?cfg = "CONFIG ''v'' ''d'' False"
  have p: "log_path ?cfg = ''v/00 - Inbox/Xeet Processing Log.md''"
    by (simp add: log_path_def CONFIG_def path_join_def)
  have a: "\<not> dryRun ?cfg" by (simp add: CONFIG_def)
  have b: "log_path ?cfg \<notin> denied ex_world" by (simp add: ex_world_def)
  have c: "\<not> existsSync (log_path ?cfg) ex_world"
    by (simp add: p existsSync_def ex_world_def)
  have d: "\<forall>c\<in>set [ex_call_1, ex_call_2]. tags (fst (snd c)) \<noteq> None"
    by (simp add: ex_call_1_def ex_call_2_def ex_tweet_def)
  have e: "[ex_call_1, ex_call_2] \<noteq> []" by simp
  from log_newest_first [OF a b c d e] p show ?thesis by simp
qed

subsection \<open>File names\<close>





lemma kelvin_title: "note_filename kelvin = ''k.md''"
  by code_simp



lemma alnum_not_hyphen: "alnum c \<Longrightarrow> c \<noteq> CHR ''-''"
  by (auto simp: alnum_def)

lemma replace_runs_in_run_hd: "replace_runs True s = x # xs \<Longrightarrow> x \<noteq> CHR ''-''"
  by (induction s) (auto split: if_splits dest: alnum_not_hyphen)

lemma replace_runs_single_hyphens:
  "successively (\<lambda>x y. \<not> (x = CHR ''-'' \<and> y = CHR ''-'')) (replace_runs b s)"
proof (induction s arbitrary: b)
  case Nil
  then show ?case by simp
next
  case (Cons c cs)
  show ?case
  proof (cases "alnum c")
    case True
    with Cons.IH [of False] alnum_not_hyphen [of c] show ?thesis
      by (simp add: successively_Cons)
  next
    case False
    show ?thesis
    proof (cases b)
      case True
      with False Cons.IH [of True] show ?thesis by simp
    next
      case nb: False
      have "replace_runs True cs = [] \<or> hd (replace_runs True cs) \<noteq> CHR ''-''"
        using replace_runs_in_run_hd [of cs] by (cases "replace_runs True cs") auto
      with False nb Cons.IH [of True] show ?thesis
        by (auto simp: successively_Cons)
    qed
  qed
qed

lemma strip_hyphens_ends:
  assumes "successively (\<lambda>x y. \<not> (x = CHR ''-'' \<and> y = CHR ''-'')) s"
    and "strip_hyphens s \<noteq> []"
  shows "hd (strip_hyphens s) \<noteq> CHR ''-'' \<and> last (strip_hyphens s) \<noteq> CHR ''-''"
proof -
  let ?P = "\<lambda>x y. \<not> (x = CHR ''-'' \<and> y = CHR ''-'')"
  define s1 where "s1 = (case s of [] \<Rightarrow> [] | c # r \<Rightarrow> if c = CHR ''-'' then r else s)"
  have r: "strip_hyphens s = (if s1 \<noteq> [] \<and> last s1 = CHR ''-'' then butlast s1 else s1)"
    by (simp add: strip_hyphens_def s1_def)
  have s1: "successively ?P s1 \<and> (s1 = [] \<or> hd s1 \<noteq> CHR ''-'')"
    using assms(1) by (cases s) (auto simp: s1_def successively_Cons)
  show ?thesis
  proof (cases "s1 \<noteq> [] \<and> last s1 = CHR ''-''")
    case False
    with r assms(2) s1 show ?thesis by auto
  next
    case True
    then have split: "s1 = butlast s1 @ [CHR ''-'']"
      by (metis append_butlast_last_id)
    from True r have b: "strip_hyphens s = butlast s1" by simp
    with assms(2) have ne: "butlast s1 \<noteq> []" by simp
    from s1 split have "successively ?P (butlast s1 @ [CHR ''-''])" by simp
    with ne have "last (butlast s1) \<noteq> CHR ''-''"
      by (simp add: successively_append_iff)
    moreover from s1 ne split have "hd (butlast s1) \<noteq> CHR ''-''"
      by (metis True hd_append2)
    ultimately show ?thesis using b by simp
  qed
qed

text \<open>
  What does hold for every title: the sanitized name never starts with a hyphen, and it
  does not end with one as long as the cut at 50 characters removes nothing.
\<close>

lemma sanitize_hyphens:
  assumes "sanitize t \<noteq> []"
  shows "hd (sanitize t) \<noteq> CHR ''-''"
    and "length (strip_hyphens (replace_runs False (toLowerCase t))) \<le> 50
         \<Longrightarrow> last (sanitize t) \<noteq> CHR ''-''"
proof -
  let ?r = "strip_hyphens (replace_runs False (toLowerCase t))"
  from assms have ne: "?r \<noteq> []" by (auto simp: sanitize_def)
  note e = strip_hyphens_ends [OF replace_runs_single_hyphens ne]
  from ne e show "hd (sanitize t) \<noteq> CHR ''-''"
    by (cases ?r) (auto simp: sanitize_def)
  assume "length ?r \<le> 50"
  with e show "last (sanitize t) \<noteq> CHR ''-''" by (simp add: sanitize_def)
qed

lemma filename_example:
  "note_filename ''Building RAG Systems: Claude!!'' = ''building-rag-systems-claude.md''"
  by code_simp

text \<open>
  C7. The file name is computed in the stated order (lower case, runs to
  hyphens, trim, cut at 50, extension), and the example title gives
  \<open>building-rag-systems-claude.md\<close>. But the cut comes after the trim: for the title of
  49 letters \<open>a\<close>, a space and a \<open>b\<close>, the trimmed name has 51 characters, the cut
  leaves the hyphen as the 50th and last, and the name in front of the extension ends in
  a hyphen.
\<close>

theorem truncation_leaves_trailing_hyphen:
  "note_filename long_title = replicate 49 (CHR ''a'') @ ''-.md''
   \<and> sanitize long_title = replicate 49 (CHR ''a'') @ ''-''
   \<and> last (sanitize long_title) = CHR ''-''"
  by code_simp

subsection \<open>The engagement line\<close>

lemma engagement_part_empty:
  "(engagement_part js e = []) = (likes e = None \<or> likes e = Some 0)"
  by (auto simp: engagement_part_def truthy_count_def split: option.splits)

text \<open>
  C8, as stated: the engagement portion is left out exactly when none of the three
  counts is present. It fails for a record with share and reply counts but no like
  count: the portion is left out although engagement data is present.
\<close>

theorem engagement_any_count_counterexample:
  "\<not> (engagement_part ex_builtins \<lparr> likes = None, retweets = Some 234, replies = Some 89 \<rparr> = []
       \<longleftrightarrow> \<not> has_engagement_data \<lparr> likes = None, retweets = Some 234, replies = Some 89 \<rparr>)"
  by (simp add: engagement_part_def truthy_count_def has_engagement_data_def)

text \<open>
  C8, amended: the note is the front matter, the title lines, the engagement portion
  and the rest, in this order; the engagement portion is left out exactly when the like
  count is \<open>null\<close> or zero, whatever the share and reply counts are, and when it is
  there it starts with the \<open>**Engagement:**\<close> label.
\<close>

theorem engagement_follows_likes:
  assumes "generateNote js today td screenshotPath researchData = Inr note"
  shows "\<exists>e. engagement td = Some e
           \<and> note = frontmatter js today td screenshotPath @ ''\<newline>\<newline>'' @ note_head td
                    @ engagement_part js e @ note_body js td screenshotPath researchData
           \<and> (engagement_part js e = [] \<longleftrightarrow> likes e = None \<or> likes e = Some 0)
           \<and> (engagement_part js e \<noteq> [] \<longrightarrow> prefix ''**Engagement:** '' (engagement_part js e))"
proof -
  from assms obtain e where e: "engagement td = Some e"
    by (auto simp: generateNote_def split: option.splits)
  with assms have n: "note = frontmatter js today td screenshotPath @ ''\<newline>\<newline>'' @ note_head td
      @ engagement_part js e @ note_body js td screenshotPath researchData"
    by (simp add: generateNote_def)
  have p: "engagement_part js e \<noteq> [] \<longrightarrow> prefix ''**Engagement:** '' (engagement_part js e)"
    by (simp add: engagement_part_def)
  from e n p engagement_part_empty [of js e] show ?thesis by blast
qed

theorem engagement_follows_likes_witness:
  "generateNote ex_builtins ''2026-01-04'' ex_tweet ''Attachments/Xeets/a.png'' None
     = Inr (frontmatter ex_builtins ''2026-01-04'' ex_tweet ''Attachments/Xeets/a.png''
            @ ''\<newline>\<newline>'' @ note_head ex_tweet @ engagement_part ex_builtins ex_engagement
            @ note_body ex_builtins ex_tweet ''Attachments/Xeets/a.png'' None)
   \<and> engagement_part ex_builtins ex_engagement \<noteq> []
   \<and> prefix ''**Engagement:** '' (engagement_part ex_builtins ex_engagement)"
proof -
  have n: "generateNote ex_builtins ''2026-01-04'' ex_tweet ''Attachments/Xeets/a.png'' None
     = Inr (frontmatter ex_builtins ''2026-01-04'' ex_tweet ''Attachments/Xeets/a.png''
            @ ''\<newline>\<newline>'' @ note_head ex_tweet @ engagement_part ex_builtins ex_engagement
            @ note_body ex_builtins ex_tweet ''Attachments/Xeets/a.png'' None)"
    by (simp add: generateNote_def ex_tweet_def)
  have l: "likes ex_engagement = Some 1200" by (simp add: ex_engagement_def)
  from engagement_follows_likes [OF n] l
  have "engagement_part ex_builtins ex_engagement \<noteq> []
      \<and> prefix ''**Engagement:** '' (engagement_part ex_builtins ex_engagement)"
    by (auto simp: ex_tweet_def)
  with n show ?thesis by blast
qed

subsection \<open>Enrichment\<close>

text \<open>
  C4. When the filtering call raises on a non-empty result list (the prompt has been
  built, so the tags are there), \<open>filterResearchResults\<close> returns normally with every raw
  result, in the same order, changed only in \<open>relevance\<close>, now 0.5, and \<open>summary\<close>, now
  the result's own snippet; \<open>performAutoResearch\<close> then returns the bundle of the query
  and these results. \<open>performAutoResearch\<close> has no error result at all.
\<close>

theorem filter_failure_degrades:
  assumes "searchResults \<noteq> []" and "filter_call orc searchResults td = Inl e"
    and "generateSearchQuery orc td = Inr q" and "performWebSearch cfg orc q = searchResults"
  shows "filterResearchResults cfg orc searchResults td
           = Inr (map (\<lambda>r. r\<lparr> res_relevance := Some 0.5, res_summary := res_snippet r \<rparr>)
                      searchResults)
       \<and> (enableAutoResearch cfg \<longrightarrow>
            performAutoResearch cfg orc td
              = Some \<lparr> query = q,
                       results = map (\<lambda>r. r\<lparr> res_relevance := Some 0.5,
                                              res_summary := res_snippet r \<rparr>) searchResults \<rparr>)"
proof -
  from assms(3) obtain ts where ts: "tags td = Some ts"
    by (auto simp: generateSearchQuery_def split: option.splits)
  have u: "unfiltered = (\<lambda>r. r\<lparr> res_relevance := Some 0.5, res_summary := res_snippet r \<rparr>)"
    by (rule ext) (simp add: unfiltered_def)
  have f: "filterResearchResults cfg orc searchResults td = Inr (map unfiltered searchResults)"
    using assms(1,2) ts by (simp add: filterResearchResults_def)
  then have "enableAutoResearch cfg \<longrightarrow>
      performAutoResearch cfg orc td = Some \<lparr> query = q, results = map unfiltered searchResults \<rparr>"
    using assms(1,3,4) by (simp add: performAutoResearch_def research_try_def Let_def)
  with f u show ?thesis by simp
qed

theorem filter_failure_degrades_witness:
  "performAutoResearch (CONFIG ''v'' ''d'' False)
     (ex_services\<lparr> web_search := (\<lambda>q n. ex_results) \<rparr>) ex_tweet
   = Some \<lparr> query = ''claude rag systems'',
            results = [\<lparr> res_title = Some ''RAG guide'', res_url = Some ''https://example.org/rag'',
                         res_snippet = Some ''How to build RAG'', res_relevance = Some 0.5,
                         res_reason = None, res_summary = Some ''How to build RAG'' \<rparr>] \<rparr>"
proof -
  let ?orc = "ex_services\<lparr> web_search := (\<lambda>q n. ex_results) \<rparr>"
  let ?cfg = "CONFIG ''v'' ''d'' False"
  have a: "ex_results \<noteq> []" by (simp add: ex_results_def)
  have b: "filter_call ?orc ex_results ex_tweet = Inl SyntaxError" by (simp add: ex_services_def)
  have c: "generateSearchQuery ?orc ex_tweet = Inr ''claude rag systems''"
    by (simp add: generateSearchQuery_def ex_services_def ex_tweet_def trim_def is_space_def)
  have d: "performWebSearch ?cfg ?orc ''claude rag systems'' = ex_results"
    by (simp add: performWebSearch_def)
  have e: "enableAutoResearch ?cfg" by (simp add: CONFIG_def)
  from filter_failure_degrades [OF a b c d] e show ?thesis by (simp add: ex_results_def)
qed

end
